theory Spec2Isabelle
  imports Main "HOL-Library.List_Lexorder"
begin

section \<open>Python strings\<close>

text \<open>
  A Python \<^verbatim>\<open>str\<close> is a sequence of Unicode code points, so a string is a list of
  code points here (U+0964 is the single danda 2404, U+0965 the double danda 2405,
  the line feed is 10, the space 32, the backquote 96). \<open>ascii\<close> reads an ASCII
  literal as such a list.
\<close>

type_synonym ustr = "nat list"

definition ascii :: "string \<Rightarrow> ustr" where
  "ascii s = map of_char s"

text \<open>
  The characters \<^verbatim>\<open>str.strip()\<close> and \<^verbatim>\<open>str.split()\<close> (both called without an argument)
  treat as whitespace: those for which \<^verbatim>\<open>str.isspace\<close> holds.
\<close>

definition isspace :: "nat \<Rightarrow> bool" where
  "isspace c = (c \<in> set [9, 10, 11, 12, 13, 28, 29, 30, 31, 32, 133, 160, 5760,
       8192, 8193, 8194, 8195, 8196, 8197, 8198, 8199, 8200, 8201, 8202,
       8232, 8233, 8239, 8287, 12288])"

definition lstrip :: "ustr \<Rightarrow> ustr" where
  "lstrip s = dropWhile isspace s"

definition rstrip :: "ustr \<Rightarrow> ustr" where
  "rstrip s = rev (dropWhile isspace (rev s))"

definition strip :: "ustr \<Rightarrow> ustr" where
  "strip s = rstrip (lstrip s)"

definition startswith :: "ustr \<Rightarrow> ustr \<Rightarrow> bool" where
  "startswith s p = (take (length p) s = p)"

definition endswith :: "ustr \<Rightarrow> ustr \<Rightarrow> bool" where
  "endswith s p = (length p \<le> length s \<and> drop (length s - length p) s = p)"

text \<open>
  \<^verbatim>\<open>s.replace(old, new)\<close>: a scan from the left that replaces each occurrence of
  \<open>old\<close> and goes on behind it. For an empty \<open>old\<close> Python puts \<open>new\<close> before every
  character and at the end.
\<close>

fun replace_scan :: "ustr \<Rightarrow> ustr \<Rightarrow> ustr \<Rightarrow> ustr" where
  "replace_scan old new [] = []"
| "replace_scan old new (c # cs) =
     (if startswith (c # cs) old
      then new @ replace_scan old new (drop (length old - 1) cs)
      else c # replace_scan old new cs)"

definition py_replace :: "ustr \<Rightarrow> ustr \<Rightarrow> ustr \<Rightarrow> ustr" where
  "py_replace s old new =
     (if old = [] then new @ concat (map (\<lambda>c. c # new) s)
      else replace_scan old new s)"

text \<open>
  \<^verbatim>\<open>s.split()\<close>: the maximal runs of characters that are not whitespace, in order.
  \<open>split_ws w s\<close> scans \<open>s\<close> with \<open>w\<close> the word read so far.
\<close>

fun split_ws :: "ustr \<Rightarrow> ustr \<Rightarrow> ustr list" where
  "split_ws w [] = (if w = [] then [] else [w])"
| "split_ws w (c # cs) =
     (if isspace c then (if w = [] then split_ws [] cs else w # split_ws [] cs)
      else split_ws (w @ [c]) cs)"

definition py_split :: "ustr \<Rightarrow> ustr list" where
  "py_split s = split_ws [] s"

text \<open>
  \<^verbatim>\<open>s.split('\n')\<close>: the pieces between line feeds, empty ones included; never an
  empty list. \<open>split_lines l s\<close> scans \<open>s\<close> with \<open>l\<close> the line read so far.
\<close>

fun split_lines :: "ustr \<Rightarrow> ustr \<Rightarrow> ustr list" where
  "split_lines l [] = [l]"
| "split_lines l (c # cs) =
     (if c = 10 then l # split_lines [] cs else split_lines (l @ [c]) cs)"

text \<open>\<^verbatim>\<open>sep.join(xs)\<close>.\<close>

fun join :: "ustr \<Rightarrow> ustr list \<Rightarrow> ustr" where
  "join sep [] = []"
| "join sep [x] = x"
| "join sep (x # y # ys) = x @ sep @ join sep (y # ys)"

text \<open>\<^verbatim>\<open>sub in s\<close> for two strings.\<close>

fun contains_str :: "ustr \<Rightarrow> ustr \<Rightarrow> bool" where
  "contains_str [] sub = (sub = [])"
| "contains_str (c # cs) sub = (startswith (c # cs) sub \<or> contains_str cs sub)"

section \<open>Python values, exceptions and dictionaries\<close>

text \<open>
  The exceptions the pipeline can meet, all of them subclasses of \<^verbatim>\<open>Exception\<close>.
  \<open>APIError\<close> stands for a failure of the service call (transport, authentication,
  quota).
\<close>

datatype py_exn = APIError | IndexError | KeyError | AttributeError | TypeError | JSONDecodeError

text \<open>
  What \<^verbatim>\<open>json.loads\<close> returns. A dictionary keeps its keys in insertion order, so it
  is an association list (with distinct keys). The numbers (\<^verbatim>\<open>int\<close> or \<^verbatim>\<open>float\<close>) are
  left abstract in \<open>'n\<close>: the pipeline never computes with them.
\<close>

datatype 'n json =
    JNull
  | JBool bool
  | JNum 'n
  | JStr ustr
  | JList "'n json list"
  | JDict "(ustr \<times> 'n json) list"

text \<open>\<^verbatim>\<open>d[k] = v\<close>: the value is replaced where the key stands, a new key goes last.\<close>

fun dict_setitem :: "('k \<times> 'v) list \<Rightarrow> 'k \<Rightarrow> 'v \<Rightarrow> ('k \<times> 'v) list" where
  "dict_setitem [] k v = [(k, v)]"
| "dict_setitem ((k', v') # d) k v =
     (if k' = k then (k', v) # d else (k', v') # dict_setitem d k v)"

definition head_key :: ustr where
  "head_key = ascii ''head''"

definition verify_key :: ustr where
  "verify_key = ascii ''verify''"

definition entries_key :: ustr where
  "entries_key = ascii ''entries''"

text \<open>\<^verbatim>\<open>obj.get(key, default)\<close>: only a dictionary has the method.\<close>

fun py_get :: "'n json \<Rightarrow> ustr \<Rightarrow> 'n json \<Rightarrow> py_exn + 'n json" where
  "py_get (JDict d) key dflt = Inr (case map_of d key of Some v \<Rightarrow> v | None \<Rightarrow> dflt)"
| "py_get v key dflt = Inl AttributeError"

text \<open>
  \<^verbatim>\<open>for entry in obj\<close>: the elements of a list, the keys of a dictionary, the
  characters of a string; nothing else that \<^verbatim>\<open>json.loads\<close> returns is iterable.
\<close>

fun py_iter :: "'n json \<Rightarrow> py_exn + 'n json list" where
  "py_iter (JList xs) = Inr xs"
| "py_iter (JDict d) = Inr (map (\<lambda>kv. JStr (fst kv)) d)"
| "py_iter (JStr s) = Inr (map (\<lambda>c. JStr [c]) s)"
| "py_iter v = Inl TypeError"

text \<open>
  \<^verbatim>\<open>key in obj\<close> for a string \<open>key\<close>: a key of the dictionary, an element of the
  list equal to the string, a substring of the string.
\<close>

fun py_contains :: "'n json \<Rightarrow> ustr \<Rightarrow> py_exn + bool" where
  "py_contains (JDict d) key = Inr (key \<in> set (map fst d))"
| "py_contains (JList xs) key = Inr (JStr key \<in> set xs)"
| "py_contains (JStr s) key = Inr (contains_str s key)"
| "py_contains v key = Inl TypeError"

text \<open>\<^verbatim>\<open>obj[key]\<close> for a string \<open>key\<close>: lists and strings take integer indices only.\<close>

fun py_getitem :: "'n json \<Rightarrow> ustr \<Rightarrow> py_exn + 'n json" where
  "py_getitem (JDict d) key = (case map_of d key of Some v \<Rightarrow> Inr v | None \<Rightarrow> Inl KeyError)"
| "py_getitem v key = Inl TypeError"

section \<open>The service client\<close>

text \<open>
  \<^verbatim>\<open>client.messages.create(model=..., max_tokens=..., messages=[...])\<close> either raises
  or returns a message whose \<open>content\<close> is a list of blocks; only a text block has
  the attribute \<open>text\<close>. Within one run every request differs from the others (the
  two stages ask for different \<open>max_tokens\<close>, and each stage sends a prompt per key
  of a dictionary), so a function of the request covers every behaviour of the
  service in a run. Console output is not modelled.
\<close>

record request =
  model :: ustr
  max_tokens :: nat
  content :: ustr

datatype block = TextBlock ustr | OtherBlock

type_synonym client = "request \<Rightarrow> py_exn + block list"

text \<open>\<^verbatim>\<open>message.content[0].text\<close>.\<close>

fun first_text :: "block list \<Rightarrow> py_exn + ustr" where
  "first_text [] = Inl IndexError"
| "first_text (TextBlock t # rest) = Inr t"
| "first_text (OtherBlock # rest) = Inl AttributeError"

section \<open>correct\_sloka\_with\_claude\<close>

definition correct_prompt_head :: ustr where
  "correct_prompt_head = concat
     [ascii ''You are a Sanskrit scholar expert in classical Sanskrit texts, particularly kosha (synonym dictionaries) like Amarakosha and Vaijayanti Kosha.'' @
      [10],
      [10],
      ascii ''Below is a sloka extracted from OCR that may contain errors. Please correct any OCR errors while maintaining the exact meter and meaning. Common OCR errors in Devanagari include:'' @
      [10],
      ascii ''- '' @ [2348] @ ascii ''/'' @ [2357] @ ascii '' confusion (ba/va)'' @ [10],
      ascii ''- '' @ [2359] @ ascii ''/'' @ [2358] @ ascii '' confusion ('' @ [7779] @
      ascii ''a/'' @ [347] @ ascii ''a)'' @ [10],
      ascii ''- missing anusvara ('' @ [2306] @ ascii '') or visarga ('' @ [2307] @
      ascii '')'' @ [10],
      ascii ''- '' @ [2367] @ ascii ''/'' @ [2368] @ ascii '' confusion (i/'' @ [299] @
      ascii '')'' @ [10],
      ascii ''- Incorrect matras'' @ [10],
      [10],
      ascii ''Return ONLY the corrected sloka text, nothing else. Keep the same structure with '' @
      [2404] @ ascii '' and '' @ [2405] @ ascii '' dandas.'' @ [10],
      [10],
      ascii ''Original sloka:'' @ [10]]"

definition correct_prompt_tail :: ustr where
  "correct_prompt_tail = concat
     [[10],
      [10],
      ascii ''Corrected sloka:'']"

definition correct_request :: "ustr \<Rightarrow> request" where
  "correct_request sloka_text =
     \<lparr>model = ascii ''claude-3-5-haiku@20241022'', max_tokens = 1024,
      content = correct_prompt_head @ sloka_text @ correct_prompt_tail\<rparr>"

text \<open>The body of the \<^verbatim>\<open>try\<close> block, then the function with its handler.\<close>

definition correct_try :: "ustr \<Rightarrow> client \<Rightarrow> py_exn + ustr" where
  "correct_try sloka_text client =
     (case client (correct_request sloka_text) of
        Inl e \<Rightarrow> Inl e
      | Inr message \<Rightarrow>
          (case first_text message of
             Inl e \<Rightarrow> Inl e
           | Inr t \<Rightarrow> Inr (strip t)))"

definition correct_sloka_with_claude :: "ustr \<Rightarrow> client \<Rightarrow> py_exn + ustr" where
  "correct_sloka_with_claude sloka_text client =
     (case correct_try sloka_text client of
        Inr corrected \<Rightarrow> Inr corrected
      | Inl e \<Rightarrow> Inr sloka_text)"

section \<open>parse\_sloka\_with\_claude\<close>

definition parse_prompt_head :: ustr where
  "parse_prompt_head = concat
     [ascii ''You are a Sanskrit kosha (synonym dictionary) expert. Parse this sloka from a classical Sanskrit kosha and extract dictionary entries.'' @
      [10],
      [10],
      ascii ''Sloka: '']"

definition parse_prompt_tail :: ustr where
  "parse_prompt_tail = concat
     [[10],
      [10],
      ascii ''Instructions:'' @ [10],
      ascii ''1. Identify groups of synonyms (words with the same meaning)'' @ [10],
      ascii ''2. For each group, determine:'' @ [10],
      ascii ''   - The headword (main word for that concept)'' @ [10],
      ascii ''   - All words in the group with their pr'' @ [257] @
      ascii ''tipadika (stem/root form)'' @ [10],
      ascii ''   - The gender: m (masculine/'' @ [2346, 2369, 2306] @
      ascii ''), f (feminine/'' @ [2360, 2381, 2340, 2381, 2352, 2368] @
      ascii ''), n (neuter/'' @ [2344, 2346, 2369, 2306] @ ascii '')'' @ [10],
      ascii ''3. Note any qualifiers or contextual information'' @ [10],
      [10],
      ascii ''Rules:'' @ [10],
      ascii ''- Words ending in '' @ [2307] @ ascii '' are typically masculine (m)'' @ [10],
      ascii ''- Words ending in '' @ [2310] @ ascii ''/'' @ [2312] @
      ascii '' are typically feminine (f)'' @ [10],
      ascii ''- Words ending in '' @ [2350, 2381, 8204] @ ascii '' are typically neuter (n)'' @
      [10],
      ascii ''- Look for sandhi and vibhakti to identify word boundaries'' @ [10],
      ascii ''- Group words that are synonyms (have the same meaning)'' @ [10],
      ascii ''- Use ONLY these gender codes: m, f, n'' @ [10],
      ascii ''- IMPORTANT: Write all Sanskrit words (head and prati fields) in Devanagari script, NOT in romanized transliteration'' @
      [10],
      [10],
      ascii ''Return ONLY valid JSON in this exact format (no markdown, no explanation):'' @
      [10],
      [123, 10],
      ascii ''  '' @ [34] @ ascii ''entries'' @ [34] @ ascii '': '' @ [91, 10],
      ascii ''    '' @ [123, 10],
      ascii ''      '' @ [34] @ ascii ''head'' @ [34] @ ascii '': '' @ [34] @ ascii ''pr'' @
      [257] @ ascii ''tipadika_of_headword'' @ [34] @ ascii '','' @ [10],
      ascii ''      '' @ [34] @ ascii ''gender'' @ [34] @ ascii '': '' @ [34] @
      ascii ''m/f/n'' @ [34] @ ascii '','' @ [10],
      ascii ''      '' @ [34] @ ascii ''syns'' @ [34] @ ascii '': '' @ [91, 10],
      ascii ''        '' @ [123, 34] @ ascii ''prati'' @ [34] @ ascii '': '' @ [34] @
      ascii ''word1'' @ [34] @ ascii '', '' @ [34] @ ascii ''gender'' @ [34] @ ascii '': '' @
      [34] @ ascii ''m/f/n'' @ [34, 125] @ ascii '','' @ [10],
      ascii ''        '' @ [123, 34] @ ascii ''prati'' @ [34] @ ascii '': '' @ [34] @
      ascii ''word2'' @ [34] @ ascii '', '' @ [34] @ ascii ''gender'' @ [34] @ ascii '': '' @
      [34] @ ascii ''m/f/n'' @ [34, 125, 10],
      ascii ''      '' @ [93, 10],
      ascii ''    '' @ [125, 10],
      ascii ''  '' @ [93, 10],
      [125, 10],
      [10],
      ascii ''Example for: '' @ [2344, 2366, 2327, 2366] @ ascii '' '' @
      [2348, 2361, 2369, 2347, 2339, 2366, 2307] @ ascii '' '' @
      [2360, 2352, 2381, 2346, 2366, 2360, 2381, 2340, 2375, 2359, 2366, 2306] @ ascii '' '' @
      [2349, 2379, 2327, 2357, 2340, 2368] @ ascii '' '' @ [2346, 2369, 2352, 2368, 2405, 10],
      [123, 10],
      ascii ''  '' @ [34] @ ascii ''entries'' @ [34] @ ascii '': '' @ [91, 10],
      ascii ''    '' @ [123, 10],
      ascii ''      '' @ [34] @ ascii ''head'' @ [34] @ ascii '': '' @
      [34, 2360, 2352, 2381, 2346, 34] @ ascii '','' @ [10],
      ascii ''      '' @ [34] @ ascii ''gender'' @ [34] @ ascii '': '' @ [34] @ ascii ''m'' @
      [34] @ ascii '','' @ [10],
      ascii ''      '' @ [34] @ ascii ''syns'' @ [34] @ ascii '': '' @ [91, 10],
      ascii ''        '' @ [123, 34] @ ascii ''prati'' @ [34] @ ascii '': '' @
      [34, 2344, 2366, 2327, 34] @ ascii '', '' @ [34] @ ascii ''gender'' @ [34] @
      ascii '': '' @ [34] @ ascii ''m'' @ [34, 125] @ ascii '','' @ [10],
      ascii ''        '' @ [123, 34] @ ascii ''prati'' @ [34] @ ascii '': '' @
      [34, 2348, 2361, 2369, 2347, 2339, 34] @ ascii '', '' @ [34] @ ascii ''gender'' @ [34] @
      ascii '': '' @ [34] @ ascii ''m'' @ [34, 125] @ ascii '','' @ [10],
      ascii ''        '' @ [123, 34] @ ascii ''prati'' @ [34] @ ascii '': '' @
      [34, 2360, 2352, 2381, 2346, 34] @ ascii '', '' @ [34] @ ascii ''gender'' @ [34] @
      ascii '': '' @ [34] @ ascii ''m'' @ [34, 125, 10],
      ascii ''      '' @ [93, 10],
      ascii ''    '' @ [125] @ ascii '','' @ [10],
      ascii ''    '' @ [123, 10],
      ascii ''      '' @ [34] @ ascii ''head'' @ [34] @ ascii '': '' @
      [34, 2349, 2379, 2327, 2357, 2340, 2368, 34] @ ascii '','' @ [10],
      ascii ''      '' @ [34] @ ascii ''gender'' @ [34] @ ascii '': '' @ [34] @ ascii ''f'' @
      [34] @ ascii '','' @ [10],
      ascii ''      '' @ [34] @ ascii ''qual'' @ [34] @ ascii '': '' @
      [34, 2340, 2375, 2359, 2366, 2306, 34] @ ascii '','' @ [10],
      ascii ''      '' @ [34] @ ascii ''syns'' @ [34] @ ascii '': '' @ [91, 10],
      ascii ''        '' @ [123, 34] @ ascii ''prati'' @ [34] @ ascii '': '' @
      [34, 2346, 2369, 2352, 2368, 34] @ ascii '', '' @ [34] @ ascii ''gender'' @ [34] @
      ascii '': '' @ [34] @ ascii ''f'' @ [34, 125, 10],
      ascii ''      '' @ [93, 10],
      ascii ''    '' @ [125, 10],
      ascii ''  '' @ [93, 10],
      [125, 10],
      [10],
      ascii ''Now parse the given sloka and return JSON:'']"

definition parse_request :: "ustr \<Rightarrow> request" where
  "parse_request sloka_text =
     \<lparr>model = ascii ''claude-3-5-haiku@20241022'', max_tokens = 2048,
      content = parse_prompt_head @ sloka_text @ parse_prompt_tail\<rparr>"

definition fence :: ustr where
  "fence = [96, 96, 96]"

definition fence_json :: ustr where
  "fence_json = [96, 96, 96] @ ascii ''json''"

text \<open>
  What the function does to the reply's text before decoding it: trim, drop the
  first and the last line of a reply that starts with a fence and has more than two
  lines, drop a leading fence with the tag json, drop a trailing fence, trim.
\<close>

definition strip_fences :: "ustr \<Rightarrow> ustr" where
  "strip_fences t =
     (let r0 = strip t;
          r1 = (if startswith r0 fence
                then (let lines = split_lines [] r0
                      in if length lines > 2 then join [10] (butlast (tl lines)) else r0)
                else r0);
          r2 = (if startswith r1 fence_json then drop 7 r1 else r1);
          r3 = (if endswith r2 fence then take (length r2 - 3) r2 else r2)
      in strip r3)"

text \<open>
  \<^verbatim>\<open>json.loads\<close> is the library's: the decoder is a parameter \<open>loads\<close>, which
  returns the decoded value or raises.
\<close>

type_synonym 'n decoder = "ustr \<Rightarrow> py_exn + 'n json"

definition parse_try :: "ustr \<Rightarrow> client \<Rightarrow> 'n decoder \<Rightarrow> py_exn + 'n json" where
  "parse_try sloka_text client loads =
     (case client (parse_request sloka_text) of
        Inl e \<Rightarrow> Inl e
      | Inr message \<Rightarrow>
          (case first_text message of
             Inl e \<Rightarrow> Inl e
           | Inr t \<Rightarrow> loads (strip_fences t)))"

definition no_entries :: "'n json" where
  "no_entries = JDict [(entries_key, JList [])]"

definition parse_sloka_with_claude :: "ustr \<Rightarrow> client \<Rightarrow> 'n decoder \<Rightarrow> py_exn + 'n json" where
  "parse_sloka_with_claude sloka_text client loads =
     (case parse_try sloka_text client loads of
        Inr parsed \<Rightarrow> Inr parsed
      | Inl JSONDecodeError \<Rightarrow> Inr no_entries
      | Inl e \<Rightarrow> Inr no_entries)"

section \<open>main: the two loops\<close>

text \<open>
  The normalization of a corrected sloka: line feeds to spaces, runs of whitespace
  to one space, two single dandas to one double danda.
\<close>

definition normalize_sloka :: "ustr \<Rightarrow> ustr" where
  "normalize_sloka s =
     py_replace (join [32] (py_split (py_replace s [10] [32]))) [2404, 2404] [2405]"

text \<open>One unit through the correction loop's body, up to the key it is stored under.\<close>

definition correction_stage :: "client \<Rightarrow> ustr \<Rightarrow> py_exn + ustr" where
  "correction_stage client sloka =
     (case correct_sloka_with_claude sloka client of
        Inl e \<Rightarrow> Inl e
      | Inr corrected_sloka \<Rightarrow> Inr (normalize_sloka corrected_sloka))"

fun correct_loop ::
  "client \<Rightarrow> ustr list \<Rightarrow> (ustr \<times> 'n json) list \<Rightarrow> py_exn + (ustr \<times> 'n json) list" where
  "correct_loop client [] corrected_data = Inr corrected_data"
| "correct_loop client (sloka # rest) corrected_data =
     (case correction_stage client sloka of
        Inl e \<Rightarrow> Inl e
      | Inr corrected_sloka \<Rightarrow>
          correct_loop client rest (dict_setitem corrected_data corrected_sloka (JDict [])))"

text \<open>
  The rebuilding of one entry: \<open>copy_field\<close> is the body of the inner loop over
  \<^verbatim>\<open>entry.items()\<close>, \<open>verify_entry\<close> the body of the loop over the entries; it returns
  the entry as the loop leaves it.
\<close>

fun copy_field :: "(ustr \<times> 'n json) list \<Rightarrow> ustr \<times> 'n json \<Rightarrow> (ustr \<times> 'n json) list" where
  "copy_field new_entry (key, val) =
     (if key \<noteq> head_key then dict_setitem new_entry key val else new_entry)"

definition verify_entry :: "'n json \<Rightarrow> py_exn + 'n json" where
  "verify_entry entry =
     (case py_contains entry head_key of
        Inl e \<Rightarrow> Inl e
      | Inr False \<Rightarrow> Inr entry
      | Inr True \<Rightarrow>
          (case py_getitem entry head_key of
             Inl e \<Rightarrow> Inl e
           | Inr h \<Rightarrow>
               (case entry of
                  JDict d \<Rightarrow>
                    Inr (JDict (foldl copy_field [(head_key, h), (verify_key, JBool False)] d))
                | _ \<Rightarrow> Inl AttributeError)))"

fun verify_entries :: "'n json list \<Rightarrow> py_exn + 'n json list" where
  "verify_entries [] = Inr []"
| "verify_entries (entry # rest) =
     (case verify_entry entry of
        Inl e \<Rightarrow> Inl e
      | Inr entry' \<Rightarrow>
          (case verify_entries rest of
             Inl e \<Rightarrow> Inl e
           | Inr rest' \<Rightarrow> Inr (entry' # rest')))"

text \<open>
  The loop over \<^verbatim>\<open>parsed.get('entries', [])\<close>. The entries of a list are rebuilt
  in place, so \<open>parsed\<close> holds the rebuilt list afterwards; iterating over the keys of
  a dictionary or the characters of a string changes nothing.
\<close>

definition add_verify :: "'n json \<Rightarrow> py_exn + 'n json" where
  "add_verify parsed =
     (case py_get parsed entries_key (JList []) of
        Inl e \<Rightarrow> Inl e
      | Inr entries \<Rightarrow>
          (case py_iter entries of
             Inl e \<Rightarrow> Inl e
           | Inr items \<Rightarrow>
               (case verify_entries items of
                  Inl e \<Rightarrow> Inl e
                | Inr items' \<Rightarrow>
                    (case (parsed, entries) of
                       (JDict d, JList xs) \<Rightarrow>
                         Inr (JDict (map (\<lambda>kv. if fst kv = entries_key
                                                then (fst kv, JList items') else kv) d))
                     | _ \<Rightarrow> Inr parsed))))"

text \<open>One corrected sloka through the enrichment loop's body, up to the stored value.\<close>

definition enrich_sloka :: "client \<Rightarrow> 'n decoder \<Rightarrow> ustr \<Rightarrow> py_exn + 'n json" where
  "enrich_sloka client loads sloka =
     (case parse_sloka_with_claude sloka client loads of
        Inl e \<Rightarrow> Inl e
      | Inr parsed \<Rightarrow> add_verify parsed)"

fun enrich_loop ::
  "client \<Rightarrow> 'n decoder \<Rightarrow> (ustr \<times> 'n json) list \<Rightarrow> (ustr \<times> 'n json) list \<Rightarrow>
     py_exn + (ustr \<times> 'n json) list" where
  "enrich_loop client loads [] enriched_data = Inr enriched_data"
| "enrich_loop client loads ((sloka, metadata) # rest) enriched_data =
     (case enrich_sloka client loads sloka of
        Inl e \<Rightarrow> Inl e
      | Inr parsed \<Rightarrow> enrich_loop client loads rest (dict_setitem enriched_data sloka parsed))"

text \<open>
  \<open>main\<close> from the first loop up to \<open>final_data\<close>. \<open>yaml_data\<close> is the dictionary
  of \<^verbatim>\<open>create_yaml_output\<close>, whose keys are the units; the result is \<open>final_data\<close>,
  or the exception that ends the run. \<open>main_written\<close> below goes on to the end of
  \<open>main\<close>, where \<open>final_data\<close> is written.
\<close>

definition main ::
  "(ustr \<times> 'm) list \<Rightarrow> client \<Rightarrow> 'n decoder \<Rightarrow> bool \<Rightarrow> py_exn + (ustr \<times> 'n json) list" where
  "main yaml_data client loads skip_enrichment =
     (case correct_loop client (map fst yaml_data) [] of
        Inl e \<Rightarrow> Inl e
      | Inr corrected_data \<Rightarrow>
          (if \<not> skip_enrichment then enrich_loop client loads corrected_data []
           else Inr corrected_data))"

section \<open>main: the document written\<close>

text \<open>
  Modelled from the library's documentation: \<^verbatim>\<open>yaml.dump\<close> is PyYAML's, not the
  repository's. It represents the data as a tree of nodes and writes the nodes in
  the order of the tree. A dictionary becomes a mapping node with one pair of nodes
  per item; with \<^verbatim>\<open>sort_keys=True\<close> (the library's default) the items are sorted
  first, with \<^verbatim>\<open>sort_keys=False\<close> they keep the order of the dictionary. The keys
  here are strings and distinct, so the sorting compares keys only, by code points.
  The other arguments of the call (\<^verbatim>\<open>allow_unicode\<close>, \<^verbatim>\<open>default_flow_style\<close>,
  \<^verbatim>\<open>indent\<close>, \<^verbatim>\<open>width\<close>) choose the characters written for a node, not the
  order of the nodes; the characters are not modelled.
\<close>

datatype 'n scalar = SNull | SBool bool | SNum 'n | SStr ustr

datatype 'n node =
    ScalarNode "'n scalar"
  | SequenceNode "'n node list"
  | MappingNode "('n node \<times> 'n node) list"

function represent_data :: "bool \<Rightarrow> 'n json \<Rightarrow> 'n node" where
  "represent_data sort_keys JNull = ScalarNode SNull"
| "represent_data sort_keys (JBool b) = ScalarNode (SBool b)"
| "represent_data sort_keys (JNum n) = ScalarNode (SNum n)"
| "represent_data sort_keys (JStr s) = ScalarNode (SStr s)"
| "represent_data sort_keys (JList xs) = SequenceNode (map (represent_data sort_keys) xs)"
| "represent_data sort_keys (JDict d) =
     MappingNode
       (map (\<lambda>kv. (ScalarNode (SStr (fst kv)), represent_data sort_keys (snd kv)))
          (if sort_keys then sort_key fst d else d))"
  by pat_completeness auto
termination
proof (relation "measure (\<lambda>p. size (snd p))")
  show "wf (measure (\<lambda>p. size (snd p)))" by simp
next
  fix sort_keys :: bool and xs :: "'n json list" and x
  assume "x \<in> set xs"
  then have "size x \<le> size_list size xs" by (rule size_list_estimation') simp
  then show "((sort_keys, x), (sort_keys, JList xs)) \<in> measure (\<lambda>p. size (snd p))" by simp
next
  fix sort_keys :: bool and d :: "(ustr \<times> 'n json) list" and x
  assume "x \<in> set (if sort_keys then sort_key fst d else d)"
  then have "x \<in> set d" by (simp split: if_splits)
  then have "size (snd x) \<le> size_list (size_prod (\<lambda>k. 0) size) d"
    by (rule size_list_estimation') (cases x, simp)
  then show "((sort_keys, snd x), (sort_keys, JDict d)) \<in> measure (\<lambda>p. size (snd p))"
    by simp
qed

definition yaml_dump :: "(ustr \<times> 'n json) list \<Rightarrow> bool \<Rightarrow> 'n node" where
  "yaml_dump data sort_keys = represent_data sort_keys (JDict data)"

text \<open>
  \<open>main\<close> to its end: \<^verbatim>\<open>yaml.dump(final_data, f, ..., sort_keys=False, ...)\<close>. The
  result is the document written, or the exception that ends the run before.
\<close>

definition main_written ::
  "(ustr \<times> 'm) list \<Rightarrow> client \<Rightarrow> 'n decoder \<Rightarrow> bool \<Rightarrow> py_exn + 'n node" where
  "main_written yaml_data client loads skip_enrichment =
     (case main yaml_data client loads skip_enrichment of
        Inl e \<Rightarrow> Inl e
      | Inr final_data \<Rightarrow> Inr (yaml_dump final_data False))"

section \<open>Shapes of replies\<close>

text \<open>
  The shape the prompt asks for: an object whose \<open>entries\<close>, when it has the key, is a
  list of objects.
\<close>

fun is_object :: "'n json \<Rightarrow> bool" where
  "is_object (JDict d) = True"
| "is_object v = False"

fun expected_shape :: "'n json \<Rightarrow> bool" where
  "expected_shape (JDict d) =
     (case map_of d entries_key of
        None \<Rightarrow> True
      | Some (JList xs) \<Rightarrow> list_all is_object xs
      | Some v \<Rightarrow> False)"
| "expected_shape v = False"

text \<open>
  A reply for the examples: the text \<^verbatim>\<open>{"entries":[{"head":"x"}]}\<close>, the value
  \<^verbatim>\<open>json.loads\<close> gives for it, and a decoder that knows this one text and refuses
  every other (the other texts of the examples are not JSON).
\<close>

definition sample_text :: ustr where
  "sample_text = [123, 34, 101, 110, 116, 114, 105, 101, 115, 34, 58, 91, 123, 34,
     104, 101, 97, 100, 34, 58, 34, 120, 34, 125, 93, 125]"

definition sample_value :: "'n json" where
  "sample_value = JDict [(entries_key, JList [JDict [(head_key, JStr [120])]])]"

definition sample_loads :: "'n decoder" where
  "sample_loads s = (if s = sample_text then Inr sample_value else Inl JSONDecodeError)"

section \<open>Facts about the string functions\<close>

lemma isspace_nl: "isspace 10" by (simp add: isspace_def)
lemma isspace_sp: "isspace 32" by (simp add: isspace_def)
lemma not_isspace_dd: "\<not> isspace 2405" by (simp add: isspace_def)

lemma danda_scan_pair: "replace_scan [2404, 2404] [2405] (2404 # 2404 # cs) = 2405 # replace_scan [2404, 2404] [2405] cs"
  by (simp add: startswith_def)

lemma danda_scan_other:
  "c \<noteq> 2404 \<Longrightarrow> replace_scan [2404, 2404] [2405] (c # cs) = c # replace_scan [2404, 2404] [2405] cs"
  by (simp add: startswith_def)

lemma danda_scan_single:
  "\<not> startswith (2404 # cs) [2404, 2404] \<Longrightarrow>
     replace_scan [2404, 2404] [2405] (2404 # cs) = 2404 # replace_scan [2404, 2404] [2405] cs"
  by simp

lemma newline_scan_absent: "10 \<notin> set s \<Longrightarrow> replace_scan [10] [32] s = s"
  by (induction s) (auto simp: startswith_def)

declare replace_scan.simps(2) [simp del]

lemma startswith_danda: "startswith (c # cs) [2404, 2404] \<longleftrightarrow> c = 2404 \<and> (\<exists>u. cs = 2404 # u)"
  by (cases cs) (auto simp: startswith_def)

lemma danda_scan_head:
  "replace_scan [2404, 2404] [2405] cs = 2404 # t \<Longrightarrow> \<exists>u. cs = 2404 # u"
  by (cases cs) (auto simp: replace_scan.simps(2) split: if_splits)

lemma danda_scan_idem:
  "replace_scan [2404, 2404] [2405] (replace_scan [2404, 2404] [2405] s) = replace_scan [2404, 2404] [2405] s"
proof (induction "[2404, 2404 :: nat]" "[2405 :: nat]" s rule: replace_scan.induct)
  case 1
  show ?case by simp
next
  case (2 c cs)
  show ?case
  proof (cases "startswith (c # cs) [2404, 2404]")
    case True
    then obtain u where u: "c = 2404" "cs = 2404 # u" by (auto simp: startswith_danda)
    with 2(1) True show ?thesis by (simp add: danda_scan_pair danda_scan_other)
  next
    case False
    have "\<not> startswith (c # replace_scan [2404, 2404] [2405] cs) [2404, 2404]"
    proof
      assume "startswith (c # replace_scan [2404, 2404] [2405] cs) [2404, 2404]"
      then obtain t where "c = 2404" "replace_scan [2404, 2404] [2405] cs = 2404 # t"
        by (auto simp: startswith_danda)
      with danda_scan_head have "c = 2404 \<and> (\<exists>u. cs = 2404 # u)" by blast
      with False show False by (simp add: startswith_danda)
    qed
    with 2(2) False show ?thesis by (simp add: replace_scan.simps(2))
  qed
qed

lemma danda_scan_append:
  "x \<noteq> 2404 \<Longrightarrow> replace_scan [2404, 2404] [2405] (t @ x # rest) =
     replace_scan [2404, 2404] [2405] t @ x # replace_scan [2404, 2404] [2405] rest"
proof (induction "[2404, 2404 :: nat]" "[2405 :: nat]" t rule: replace_scan.induct)
  case 1
  then show ?case by (simp add: danda_scan_other)
next
  case (2 c cs)
  show ?case
  proof (cases "startswith (c # cs) [2404, 2404]")
    case True
    then obtain u where u: "c = 2404" "cs = 2404 # u" by (auto simp: startswith_danda)
    with 2(1) 2(3) True show ?thesis by (simp add: danda_scan_pair)
  next
    case False
    with 2(3) have "\<not> startswith (c # cs @ x # rest) [2404, 2404]"
      by (cases cs) (auto simp: startswith_danda)
    with 2(2) 2(3) False show ?thesis by (simp add: replace_scan.simps(2))
  qed
qed

lemma danda_scan_set:
  "set (replace_scan [2404, 2404] [2405] t) \<subseteq> insert 2405 (set t)"
proof (induction "[2404, 2404 :: nat]" "[2405 :: nat]" t rule: replace_scan.induct)
  case 1
  show ?case by simp
next
  case (2 c cs)
  show ?case
  proof (cases "startswith (c # cs) [2404, 2404]")
    case True
    then obtain u where u: "c = 2404" "cs = 2404 # u" by (auto simp: startswith_danda)
    with 2(1) True show ?thesis by (auto simp: danda_scan_pair)
  next
    case False
    with 2(2) show ?thesis by (auto simp: replace_scan.simps(2))
  qed
qed

lemma danda_scan_nonempty: "t \<noteq> [] \<Longrightarrow> replace_scan [2404, 2404] [2405] t \<noteq> []"
  by (cases t) (auto simp: replace_scan.simps(2))

lemma danda_scan_join:
  "replace_scan [2404, 2404] [2405] (join [32] ts) = join [32] (map (replace_scan [2404, 2404] [2405]) ts)"
  by (induction "[32 :: nat]" ts rule: join.induct) (simp_all add: danda_scan_append)

lemma split_ws_tokens:
  "list_all (\<lambda>c. \<not> isspace c) w \<Longrightarrow>
     list_all (\<lambda>t. t \<noteq> [] \<and> list_all (\<lambda>c. \<not> isspace c) t) (split_ws w s)"
  by (induction s arbitrary: w) simp_all

lemma split_ws_word:
  "\<forall>c \<in> set t. \<not> isspace c \<Longrightarrow> split_ws w (t @ s) = split_ws (w @ t) s"
  by (induction t arbitrary: w) auto

lemma split_ws_join:
  "\<forall>t \<in> set ts. t \<noteq> [] \<and> (\<forall>c \<in> set t. \<not> isspace c) \<Longrightarrow> split_ws [] (join [32] ts) = ts"
proof (induction "[32 :: nat]" ts rule: join.induct)
  case 1
  show ?case by simp
next
  case (2 x)
  then have "split_ws [] (x @ []) = split_ws ([] @ x) []" by (intro split_ws_word) simp
  with 2 show ?case by simp
next
  case (3 x y ys)
  then have "split_ws [] (x @ 32 # join [32] (y # ys)) = split_ws ([] @ x) (32 # join [32] (y # ys))"
    by (intro split_ws_word) simp
  with 3 show ?case by (simp add: isspace_sp)
qed

lemma join_no_newline:
  "\<forall>t \<in> set ts. \<forall>c \<in> set t. \<not> isspace c \<Longrightarrow> 10 \<notin> set (join [32] ts)"
  by (induction "[32 :: nat]" ts rule: join.induct) (auto simp: isspace_nl)

text \<open>Trimming, the split into lines, and what the removal of fences leaves.\<close>

lemma not_isspace_bq: "\<not> isspace 96" by (simp add: isspace_def)

lemma lstrip_keep: "x \<noteq> [] \<Longrightarrow> \<not> isspace (hd x) \<Longrightarrow> lstrip (x @ s) = x @ s"
  by (cases x) (simp_all add: lstrip_def)

lemma rstrip_keep: "x \<noteq> [] \<Longrightarrow> \<not> isspace (last x) \<Longrightarrow> rstrip (s @ x) = s @ x"
  by (cases x rule: rev_cases) (simp_all add: rstrip_def)

lemma lstrip_white: "list_all isspace ws \<Longrightarrow> lstrip (ws @ s) = lstrip s"
  by (simp add: lstrip_def list_all_iff)

lemma rstrip_white: "list_all isspace ws \<Longrightarrow> rstrip (s @ ws) = rstrip s"
  by (simp add: rstrip_def list_all_iff dropWhile_append)

lemma strip_wrapped:
  assumes "list_all isspace ws1" "list_all isspace ws2" "x \<noteq> []"
    "\<not> isspace (hd x)" "\<not> isspace (last x)"
  shows "strip (ws1 @ x @ ws2) = x"
proof -
  have "lstrip (ws1 @ x @ ws2) = x @ ws2"
    using assms by (simp add: lstrip_white lstrip_keep)
  moreover have "rstrip (x @ ws2) = x"
    using assms rstrip_keep [of x "[]"] by (simp add: rstrip_white)
  ultimately show ?thesis by (simp add: strip_def)
qed

lemma strip_fixed:
  assumes "x = [] \<or> (\<not> isspace (hd x) \<and> \<not> isspace (last x))"
  shows "strip x = x"
proof (cases "x = []")
  case True
  then show ?thesis by (simp add: strip_def lstrip_def rstrip_def)
next
  case False
  with assms show ?thesis using strip_wrapped [of "[]" "[]" x] by simp
qed

lemma rstrip_take: "rstrip u = take (length (rstrip u)) u"
  by (simp add: rstrip_def dropWhile_eq_drop rev_drop)

lemma strip_ends:
  assumes "strip s \<noteq> []"
  shows "\<not> isspace (hd (strip s)) \<and> \<not> isspace (last (strip s))"
proof -
  have u: "lstrip s \<noteq> []" using assms by (auto simp: strip_def rstrip_def)
  then have hu: "\<not> isspace (hd (lstrip s))" unfolding lstrip_def by (rule hd_dropWhile)
  have "hd (strip s) = hd (lstrip s)"
    using assms rstrip_take [of "lstrip s"] hd_take [of "length (rstrip (lstrip s))" "lstrip s"]
    by (simp add: strip_def)
  moreover have "\<not> isspace (last (strip s))"
    using assms hd_dropWhile [of isspace "rev (lstrip s)"]
    by (simp add: strip_def rstrip_def last_rev)
  ultimately show ?thesis using hu by simp
qed

lemma strip_idem: "strip (strip s) = strip s"
  using strip_ends [of s] by (intro strip_fixed) blast

lemma startswith_strip:
  assumes "startswith p q" "q \<noteq> []" "\<not> isspace (hd q)" "\<not> isspace (last q)"
  shows "startswith (strip p) q"
proof -
  have "p = take (length q) p @ drop (length q) p" by simp
  with assms(1) have p: "p = q @ drop (length q) p" by (simp add: startswith_def)
  define r where "r = drop (length q) p"
  have l: "lstrip (q @ r) = q @ r" using assms by (simp add: lstrip_keep)
  have "\<exists>r'. rstrip (q @ r) = q @ r'"
  proof (cases "list_all isspace r")
    case True
    then have "rstrip (q @ r) = rstrip (q @ [])" using rstrip_white [of r q] by simp
    also have "\<dots> = q" using assms rstrip_keep [of q "[]"] by simp
    finally show ?thesis by simp
  next
    case False
    then have "rstrip (q @ r) = q @ rstrip r"
      by (auto simp: rstrip_def dropWhile_append list_all_iff)
    then show ?thesis by blast
  qed
  then obtain r' where "strip (q @ r) = q @ r'" using l by (auto simp: strip_def)
  with p show ?thesis by (simp add: startswith_def r_def)
qed

lemma endswith_strip:
  assumes "endswith p q" "q \<noteq> []" "\<not> isspace (hd q)" "\<not> isspace (last q)"
  shows "endswith (strip p) q"
proof -
  define r where "r = take (length p - length q) p"
  have "p = take (length p - length q) p @ drop (length p - length q) p" by simp
  with assms(1) have p: "p = r @ q" by (simp add: endswith_def r_def)
  have "\<exists>r'. lstrip (r @ q) = r' @ q"
  proof (cases "list_all isspace r")
    case True
    then have "lstrip (r @ q) = lstrip (q @ [])" using lstrip_white [of r q] by simp
    also have "\<dots> = q" using assms lstrip_keep [of q "[]"] by simp
    finally show ?thesis by simp
  next
    case False
    then have "lstrip (r @ q) = lstrip r @ q"
      by (auto simp: lstrip_def dropWhile_append list_all_iff)
    then show ?thesis by blast
  qed
  then obtain r' where "lstrip (r @ q) = r' @ q" by blast
  then have "strip (r @ q) = r' @ q" using assms by (simp add: strip_def rstrip_keep)
  with p show ?thesis by (simp add: endswith_def)
qed

lemma split_lines_nonempty: "split_lines l s \<noteq> []"
  by (induction s arbitrary: l) auto

lemma split_lines_no_nl: "10 \<notin> set b \<Longrightarrow> split_lines l b = [l @ b]"
  by (induction b arbitrary: l) auto

lemma split_lines_last: "10 \<notin> set b \<Longrightarrow> split_lines l (p @ 10 # b) = split_lines l p @ [b]"
  by (induction p arbitrary: l) (auto simp: split_lines_no_nl)

lemma split_lines_first: "10 \<notin> set a \<Longrightarrow> split_lines l (a @ 10 # s) = (l @ a) # split_lines [] s"
  by (induction a arbitrary: l) auto

lemma join_Cons: "ys \<noteq> [] \<Longrightarrow> join sep (x # ys) = x @ sep @ join sep ys"
  by (cases ys) auto

lemma join_split_lines: "join [10] (split_lines l p) = l @ p"
  by (induction p arbitrary: l) (auto simp: join_Cons split_lines_nonempty)

lemma startswith_append: "startswith (q @ s) q"
  by (simp add: startswith_def)

lemma startswith_fence_json:
  assumes "startswith s fence_json"
  shows "startswith s fence"
proof -
  from assms have h: "take (length fence_json) s = fence_json"
    by (simp add: startswith_def)
  have "take 3 s = take 3 (take (length fence_json) s)"
    by (simp add: fence_json_def ascii_def numeral_3_eq_3)
  also have "\<dots> = take 3 fence_json" by (simp only: h)
  also have "\<dots> = fence" by (simp add: fence_json_def fence_def)
  finally show ?thesis by (simp add: startswith_def fence_def numeral_3_eq_3)
qed

lemma strip_fences_plain:
  assumes "\<not> startswith (strip p) fence" "\<not> endswith (strip p) fence"
  shows "strip_fences p = strip p"
  using assms startswith_fence_json [of "strip p"]
  by (auto simp: strip_fences_def Let_def strip_idem)

lemma strip_fences_fenced:
  assumes "list_all isspace ws1" "list_all isspace ws2" "10 \<notin> set tag"
    "\<not> startswith (strip p) fence" "\<not> endswith (strip p) fence"
  shows "strip_fences (ws1 @ fence @ tag @ [10] @ p @ [10] @ fence @ ws2) = strip p"
proof -
  define x where "x = fence @ tag @ [10] @ p @ [10] @ fence"
  have x0: "strip (ws1 @ x @ ws2) = x"
    using assms(1,2) by (intro strip_wrapped) (simp_all add: x_def fence_def not_isspace_bq)
  have nl: "10 \<notin> set (fence @ tag)" using assms(3) by (simp add: fence_def)
  have "split_lines [] x = (fence @ tag) # split_lines [] (p @ 10 # fence)"
    using split_lines_first [OF nl, of "[]" "p @ 10 # fence"] by (simp add: x_def)
  also have "split_lines [] (p @ 10 # fence) = split_lines [] p @ [fence]"
    by (intro split_lines_last) (simp add: fence_def)
  finally have lines: "split_lines [] x = (fence @ tag) # split_lines [] p @ [fence]" .
  have len: "length (split_lines [] x) > 2"
    using split_lines_nonempty [of "[]" p] by (cases "split_lines [] p") (simp_all add: lines)
  have mid: "join [10] (butlast (tl (split_lines [] x))) = p"
    by (simp add: lines join_split_lines)
  have fx: "startswith x fence" by (simp add: x_def startswith_append)
  have nj: "\<not> startswith p fence_json"
  proof
    assume "startswith p fence_json"
    then have "startswith p fence" by (rule startswith_fence_json)
    then have "startswith (strip p) fence"
      by (rule startswith_strip) (simp_all add: fence_def not_isspace_bq)
    with assms(4) show False by simp
  qed
  have ne: "\<not> endswith p fence"
  proof
    assume "endswith p fence"
    then have "endswith (strip p) fence"
      by (rule endswith_strip) (simp_all add: fence_def not_isspace_bq)
    with assms(5) show False by simp
  qed
  have "strip_fences (ws1 @ x @ ws2) = strip p"
    using x0 fx len mid nj ne by (simp add: strip_fences_def Let_def)
  then show ?thesis by (simp add: x_def)
qed

section \<open>Facts about dictionaries and the rebuilding of an entry\<close>

lemma keys_differ:
  "head_key \<noteq> verify_key" "verify_key \<noteq> head_key"
  "head_key \<noteq> entries_key" "verify_key \<noteq> entries_key"
  by (simp_all add: head_key_def verify_key_def entries_key_def ascii_def)

lemma key_in_keys: "(k, v) \<in> set d \<Longrightarrow> k \<in> fst ` set d"
  by force

lemma dict_setitem_new: "k \<notin> set (map fst d) \<Longrightarrow> dict_setitem d k v = d @ [(k, v)]"
  by (induction d) auto

lemma dict_setitem_keys:
  "map fst (dict_setitem d k v) = (if k \<in> set (map fst d) then map fst d else map fst d @ [k])"
  by (induction d) (auto dest: key_in_keys)

lemma dict_setitem_distinct:
  "distinct (map fst d) \<Longrightarrow> distinct (map fst (dict_setitem d k v))"
  by (simp add: dict_setitem_keys)

lemma dict_setitem_keyset: "fst ` set (dict_setitem d k v) = insert k (fst ` set d)"
  using arg_cong [OF dict_setitem_keys [of d k v], of set] by (simp split: if_splits) blast

lemma foldl_copy_field_fresh:
  "distinct (map fst d) \<Longrightarrow>
   \<forall>k \<in> set (map fst d). k \<noteq> head_key \<longrightarrow> k \<notin> set (map fst new_entry) \<Longrightarrow>
   foldl copy_field new_entry d = new_entry @ filter (\<lambda>kv. fst kv \<noteq> head_key) d"
proof (induction d arbitrary: new_entry)
  case Nil
  show ?case by simp
next
  case (Cons kv d)
  obtain k v where kv: "kv = (k, v)" by (cases kv)
  show ?case
  proof (cases "k = head_key")
    case True
    with Cons kv show ?thesis by simp
  next
    case False
    with Cons.prems kv have fresh: "k \<notin> set (map fst new_entry)" by simp
    have "foldl copy_field (new_entry @ [(k, v)]) d =
          (new_entry @ [(k, v)]) @ filter (\<lambda>kv. fst kv \<noteq> head_key) d"
      using Cons.prems kv by (intro Cons.IH) auto
    with False fresh kv show ?thesis by (simp add: dict_setitem_new)
  qed
qed

lemma verify_entry_without_head:
  "head_key \<notin> set (map fst d) \<Longrightarrow> verify_entry (JDict d) = Inr (JDict d)"
  by (simp add: verify_entry_def)

lemma verify_entry_with_head:
  "map_of d head_key = Some h \<Longrightarrow>
   verify_entry (JDict d) =
     Inr (JDict (foldl copy_field [(head_key, h), (verify_key, JBool False)] d))"
  using map_of_eq_None_iff [of d head_key] by (auto simp: verify_entry_def)

lemma rebuild_without_verify:
  assumes "distinct (map fst d)" "verify_key \<notin> set (map fst d)"
  shows "foldl copy_field [(head_key, h), (verify_key, JBool False)] d =
         (head_key, h) # (verify_key, JBool False) # filter (\<lambda>kv. fst kv \<noteq> head_key) d"
proof -
  have "foldl copy_field [(head_key, h), (verify_key, JBool False)] d =
        [(head_key, h), (verify_key, JBool False)] @ filter (\<lambda>kv. fst kv \<noteq> head_key) d"
    using assms by (intro foldl_copy_field_fresh) (auto dest: key_in_keys)
  then show ?thesis by simp
qed

lemma rebuild_with_verify:
  assumes "distinct (map fst d)" "map_of d verify_key = Some v"
  shows "foldl copy_field [(head_key, h), (verify_key, x)] d =
         (head_key, h) # (verify_key, v) #
           filter (\<lambda>kv. fst kv \<noteq> head_key \<and> fst kv \<noteq> verify_key) d"
proof -
  from assms(2) have "(verify_key, v) \<in> set d" by (rule map_of_SomeD)
  then obtain d1 d2 where d: "d = d1 @ (verify_key, v) # d2" by (auto dest: split_list)
  with assms(1) have d1: "distinct (map fst d1)" "verify_key \<notin> set (map fst d1)"
    and d2: "distinct (map fst d2)" "verify_key \<notin> set (map fst d2)"
    and disj: "set (map fst d1) \<inter> set (map fst d2) = {}"
    by auto
  have f1: "\<And>P. filter (\<lambda>kv. P kv \<and> fst kv \<noteq> verify_key) d1 = filter P d1"
    using d1(2) by (intro filter_cong) (auto dest: key_in_keys)
  have f2: "\<And>P. filter (\<lambda>kv. P kv \<and> fst kv \<noteq> verify_key) d2 = filter P d2"
    using d2(2) by (intro filter_cong) (auto dest: key_in_keys)
  have s1: "foldl copy_field [(head_key, h), (verify_key, x)] d1 =
        [(head_key, h), (verify_key, x)] @ filter (\<lambda>kv. fst kv \<noteq> head_key) d1"
    using d1 by (intro foldl_copy_field_fresh) (auto dest: key_in_keys)
  have s2: "copy_field ([(head_key, h), (verify_key, x)] @ filter (\<lambda>kv. fst kv \<noteq> head_key) d1)
          (verify_key, v) =
        [(head_key, h), (verify_key, v)] @ filter (\<lambda>kv. fst kv \<noteq> head_key) d1"
    by (simp add: keys_differ)
  have s3: "foldl copy_field ([(head_key, h), (verify_key, v)] @ filter (\<lambda>kv. fst kv \<noteq> head_key) d1) d2 =
        ([(head_key, h), (verify_key, v)] @ filter (\<lambda>kv. fst kv \<noteq> head_key) d1) @
          filter (\<lambda>kv. fst kv \<noteq> head_key) d2"
    using d2 disj by (intro foldl_copy_field_fresh) (auto dest: key_in_keys)
  show ?thesis
    unfolding d foldl_append foldl_Cons s1 s2 s3 by (simp add: f1 f2)
qed

section \<open>Facts about the stages and the two loops\<close>

text \<open>The correction of a unit always yields a text: every unit has a corrected text.\<close>

lemma correction_stage_total: "\<exists>c. correction_stage client sloka = Inr c"
  by (simp add: correction_stage_def correct_sloka_with_claude_def split: sum.split)

lemma add_verify_no_entries: "add_verify no_entries = Inr no_entries"
  by (simp add: add_verify_def no_entries_def)

lemma add_verify_missing_key:
  assumes "entries_key \<notin> set (map fst d)"
  shows "add_verify (JDict d) = Inr (JDict d)"
proof -
  from assms have "map_of d entries_key = None" by (simp add: map_of_eq_None_iff)
  moreover from assms have
    "map (\<lambda>kv. if fst kv = entries_key then (fst kv, JList []) else kv) d = d"
    by (intro map_idI) (auto dest: key_in_keys)
  ultimately show ?thesis by (simp add: add_verify_def)
qed

lemma correct_loop_keys:
  "map (correction_stage client) units = map Inr cs \<Longrightarrow> distinct (map fst acc) \<Longrightarrow>
   \<exists>d. correct_loop client units acc = Inr d \<and> distinct (map fst d) \<and>
       set (map fst d) = set (map fst acc) \<union> set cs"
proof (induction units arbitrary: acc cs)
  case Nil
  then show ?case by simp
next
  case (Cons u us)
  then obtain c cs' where cs: "cs = c # cs'" "correction_stage client u = Inr c"
    "map (correction_stage client) us = map Inr cs'"
    by (cases cs) auto
  from Cons.prems(2) have "distinct (map fst (dict_setitem acc c (JDict [])))"
    by (rule dict_setitem_distinct)
  from Cons.IH [OF cs(3) this] cs(1,2) show ?case
    by (auto simp: dict_setitem_keyset)
qed

lemma correct_loop_distinct:
  "map (correction_stage client) units = map Inr cs \<Longrightarrow> distinct cs \<Longrightarrow>
   set cs \<inter> set (map fst acc) = {} \<Longrightarrow>
   correct_loop client units acc = Inr (acc @ map (\<lambda>c. (c, JDict [])) cs)"
proof (induction units arbitrary: acc cs)
  case Nil
  then show ?case by simp
next
  case (Cons u us)
  then obtain c cs' where cs: "cs = c # cs'" "correction_stage client u = Inr c"
    "map (correction_stage client) us = map Inr cs'"
    by (cases cs) auto
  with Cons.prems have new: "c \<notin> set (map fst acc)" and d: "distinct cs'"
    and disj: "set cs' \<inter> set (map fst (acc @ [(c, JDict [])])) = {}"
    by auto
  from Cons.IH [OF cs(3) d disj] cs(1,2) new show ?case
    by (simp add: dict_setitem_new)
qed

lemma enrich_loop_keys:
  "enrich_loop client loads items acc = Inr final \<Longrightarrow> distinct (map fst items) \<Longrightarrow>
   set (map fst items) \<inter> set (map fst acc) = {} \<Longrightarrow>
   map fst final = map fst acc @ map fst items"
proof (induction items arbitrary: acc)
  case Nil
  then show ?case by simp
next
  case (Cons kv items)
  obtain k v where kv: "kv = (k, v)" by (cases kv)
  with Cons.prems(1) obtain parsed where p: "enrich_sloka client loads k = Inr parsed"
    "enrich_loop client loads items (dict_setitem acc k parsed) = Inr final"
    by (auto split: sum.splits)
  from Cons.prems(2,3) kv have new: "k \<notin> set (map fst acc)" and d: "distinct (map fst items)"
    and disj: "set (map fst items) \<inter> set (map fst (acc @ [(k, parsed)])) = {}"
    by auto
  from new p(2) have "enrich_loop client loads items (acc @ [(k, parsed)]) = Inr final"
    by (simp add: dict_setitem_new)
  from Cons.IH [OF this d disj] kv show ?case by simp
qed

lemma main_keys:
  fixes final :: "(ustr \<times> 'n json) list"
  assumes "map (correction_stage client) (map fst yaml_data) = map Inr cs"
    "main yaml_data client loads skip_enrichment = Inr final"
  shows "distinct (map fst final) \<and> set (map fst final) = set cs"
proof -
  from correct_loop_keys [OF assms(1), of "[] :: (ustr \<times> 'n json) list"]
  obtain d :: "(ustr \<times> 'n json) list"
    where d: "correct_loop client (map fst yaml_data) [] = Inr d" "distinct (map fst d)"
      "set (map fst d) = set cs"
    by auto
  show ?thesis
  proof (cases skip_enrichment)
    case True
    with d assms(2) show ?thesis by (simp add: main_def)
  next
    case False
    with d(1) assms(2) have "enrich_loop client loads d [] = Inr final" by (simp add: main_def)
    from enrich_loop_keys [OF this d(2)] d show ?thesis by simp
  qed
qed

text \<open>No two requests of a run are the same.\<close>

lemma correct_request_inj: "correct_request a = correct_request b \<longleftrightarrow> a = b"
  by (simp add: correct_request_def)

lemma parse_request_inj: "parse_request a = parse_request b \<longleftrightarrow> a = b"
  by (simp add: parse_request_def)

lemma requests_differ: "correct_request a \<noteq> parse_request b"
  by (simp add: correct_request_def parse_request_def)

text \<open>Where the loops cannot fail.\<close>

lemma verify_entry_object:
  assumes "is_object entry"
  shows "\<exists>entry'. verify_entry entry = Inr entry'"
proof -
  from assms obtain d where d: "entry = JDict d" by (cases entry) auto
  show ?thesis
  proof (cases "map_of d head_key")
    case None
    then have "head_key \<notin> set (map fst d)" by (simp add: map_of_eq_None_iff)
    then show ?thesis by (simp add: d verify_entry_without_head)
  next
    case (Some h)
    then show ?thesis by (simp add: d verify_entry_with_head)
  qed
qed

lemma verify_entries_objects:
  "list_all is_object xs \<Longrightarrow> \<exists>xs'. verify_entries xs = Inr xs'"
proof (induction xs)
  case Nil
  show ?case by simp
next
  case (Cons x xs)
  then obtain x' xs' where "verify_entry x = Inr x'" "verify_entries xs = Inr xs'"
    using verify_entry_object [of x] by auto
  then show ?case by simp
qed

lemma add_verify_expected_shape:
  assumes "expected_shape parsed"
  shows "\<exists>parsed'. add_verify parsed = Inr parsed'"
proof -
  from assms obtain d where d: "parsed = JDict d" by (cases parsed) auto
  show ?thesis
  proof (cases "map_of d entries_key")
    case None
    then show ?thesis by (simp add: d add_verify_def)
  next
    case (Some v)
    with assms d obtain xs where xs: "v = JList xs" "list_all is_object xs"
      by (cases v) auto
    from verify_entries_objects [OF xs(2)] obtain xs' where "verify_entries xs = Inr xs'" ..
    with Some xs(1) show ?thesis by (simp add: d add_verify_def)
  qed
qed

lemma parse_sloka_total: "\<exists>parsed. parse_sloka_with_claude sloka client loads = Inr parsed"
  by (simp add: parse_sloka_with_claude_def split: sum.split py_exn.split)

lemma correct_loop_total: "\<exists>d. correct_loop client units acc = Inr d"
proof (induction units arbitrary: acc)
  case Nil
  show ?case by simp
next
  case (Cons u us)
  obtain c where "correction_stage client u = Inr c" using correction_stage_total by blast
  with Cons show ?case by simp
qed

lemma enrich_loop_total:
  assumes "\<And>sloka. \<exists>v. enrich_sloka client loads sloka = Inr v"
  shows "\<exists>final. enrich_loop client loads items acc = Inr final"
proof (induction items arbitrary: acc)
  case Nil
  show ?case by simp
next
  case (Cons kv items)
  obtain k m where kv: "kv = (k, m)" by (cases kv)
  from assms obtain v where "enrich_sloka client loads k = Inr v" by blast
  with Cons kv show ?case by simp
qed

text \<open>Without sorting, the document has the items of the dictionary in their order.\<close>

lemma yaml_dump_in_order:
  "yaml_dump data False =
     MappingNode (map (\<lambda>kv. (ScalarNode (SStr (fst kv)), represent_data False (snd kv))) data)"
  by (simp add: yaml_dump_def)

lemma yaml_dump_keys:
  "\<exists>items. yaml_dump data False = MappingNode items \<and>
     map fst items = map (\<lambda>c. ScalarNode (SStr c)) (map fst data)"
  by (simp add: yaml_dump_in_order comp_def)

text \<open>
  The argument matters: for the keys \<^verbatim>\<open>b\<close>, \<^verbatim>\<open>a\<close> the document has \<^verbatim>\<open>b\<close> first
  without sorting and \<^verbatim>\<open>a\<close> first with it.
\<close>

lemma sort_keys_would_reorder:
  "yaml_dump [([98], JDict []), ([97], JDict [] :: int json)] False =
     MappingNode [(ScalarNode (SStr [98]), MappingNode []), (ScalarNode (SStr [97]), MappingNode [])] \<and>
   yaml_dump [([98], JDict []), ([97], JDict [] :: int json)] True =
     MappingNode [(ScalarNode (SStr [97]), MappingNode []), (ScalarNode (SStr [98]), MappingNode [])]"
  by (simp add: yaml_dump_def)

text \<open>The equations that evaluate the functions on concrete inputs.\<close>

lemmas string_eval =
  ascii_def isspace_def lstrip_def rstrip_def strip_def startswith_def endswith_def
  replace_scan.simps py_replace_def py_split_def normalize_sloka_def fence_def fence_json_def

lemmas stage_eval =
  correct_request_def correct_try_def correct_sloka_with_claude_def correction_stage_def
  parse_request_def parse_try_def parse_sloka_with_claude_def strip_fences_def
  no_entries_def entries_key_def head_key_def verify_key_def
  verify_entry_def add_verify_def enrich_sloka_def main_def

lemmas sample_eval = sample_text_def sample_value_def sample_loads_def

section \<open>The claims\<close>

subsection \<open>C1: a failure at one unit and the units after it\<close>

text \<open>
  Claim C1. Whatever the service replies, a failure while one unit is processed does
  not keep the driver from processing the units after it, and the run completes; the
  replies include those that decode to JSON of another shape than an object, such as
  an array.

  The code does not do this for a reply that decodes to an array. The handlers of
  \<open>parse_sloka_with_claude\<close> cover the call and the decoding only; the decoded array
  is returned as it is, and \<^verbatim>\<open>parsed.get('entries', [])\<close> in \<open>main\<close> raises
  \<^verbatim>\<open>AttributeError\<close> outside every handler. With two units and a service that
  answers each parsing request with the text \<^verbatim>\<open>[]\<close>, the run ends with that
  exception at the first unit and the second unit is never parsed.
\<close>

theorem array_reply_aborts_run:
  "main [([97], ()), ([98], ())]
     (\<lambda>r. if max_tokens r = 1024 then Inl APIError else Inr [TextBlock (ascii ''[]'')])
     (\<lambda>s. if s = ascii ''[]'' then Inr (JList []) else Inl JSONDecodeError) False =
   (Inl AttributeError :: py_exn + (ustr \<times> int json) list)"
  by (simp add: string_eval stage_eval)

subsection \<open>C2: the fallback of the correction\<close>

text \<open>
  Claim C2, as amended. When the service raises on the correction request of a unit,
  \<open>correct_sloka_with_claude\<close> does not raise and returns the unit's text unchanged;
  the loop in \<open>main\<close> then normalizes that text like any corrected text, so the text
  the correction stage yields is the normalization of the original.
\<close>

theorem correct_fallback:
  assumes "client (correct_request sloka) = Inl e"
  shows "correct_sloka_with_claude sloka client = Inr sloka \<and>
         correction_stage client sloka = Inr (normalize_sloka sloka)"
  using assms by (simp add: correct_sloka_with_claude_def correct_try_def correction_stage_def)

text \<open>
  At the unit \<^verbatim>\<open>a  b\<close> (two spaces) and a service that always raises.
\<close>

theorem correct_fallback_witness:
  "correct_sloka_with_claude [97, 32, 32, 98] (\<lambda>r. Inl APIError) = Inr [97, 32, 32, 98] \<and>
   correction_stage (\<lambda>r. Inl APIError) [97, 32, 32, 98] = Inr [97, 32, 98]"
  using correct_fallback [of "\<lambda>r. Inl APIError" "[97, 32, 32, 98]" APIError]
  by (simp add: string_eval)

text \<open>
  The claim as stated, that the stage returns the original text unchanged, fails at
  that unit: the stage yields \<^verbatim>\<open>a b\<close>.
\<close>

theorem correction_stage_changes_text:
  "(\<lambda>r. Inl APIError) (correct_request [97, 32, 32, 98]) = (Inl APIError :: py_exn + block list) \<and>
   correction_stage (\<lambda>r. Inl APIError) [97, 32, 32, 98] \<noteq> Inr [97, 32, 32, 98]"
  by (simp add: string_eval correct_try_def correct_sloka_with_claude_def correction_stage_def)

subsection \<open>C3: a reply that is not decodable\<close>

text \<open>
  Claim C3. When the decoder raises on the reply's text (the text the function hands
  to it, after the removal of fences), \<open>parse_sloka_with_claude\<close> does not raise and
  returns \<^verbatim>\<open>{"entries": []}\<close>; the loop in \<open>main\<close> stores that value unchanged,
  and the entries it iterates over are the empty list.
\<close>

theorem undecodable_reply:
  fixes loads :: "'n decoder"
  assumes "client (parse_request sloka) = Inr message" "first_text message = Inr t"
    "loads (strip_fences t) = Inl e"
  shows "parse_sloka_with_claude sloka client loads = Inr no_entries \<and>
         enrich_sloka client loads sloka = Inr no_entries \<and>
         py_get (no_entries :: 'n json) entries_key (JList []) = Inr (JList [])"
  using assms
  by (cases e)
    (simp_all add: parse_sloka_with_claude_def parse_try_def enrich_sloka_def
      add_verify_no_entries, simp_all add: no_entries_def)

theorem undecodable_reply_witness:
  "parse_sloka_with_claude [97] (\<lambda>r. Inr [TextBlock (ascii ''no json'')])
     (\<lambda>s. Inl JSONDecodeError) = Inr (no_entries :: int json) \<and>
   enrich_sloka (\<lambda>r. Inr [TextBlock (ascii ''no json'')]) (\<lambda>s. Inl JSONDecodeError) [97] =
     Inr (no_entries :: int json)"
  using undecodable_reply [of "\<lambda>r. Inr [TextBlock (ascii ''no json'')]" "[97]"
      "[TextBlock (ascii ''no json'')]" "ascii ''no json''"
      "\<lambda>s. Inl JSONDecodeError :: py_exn + int json" JSONDecodeError]
  by simp

subsection \<open>C4: a reply wrapped in a code fence\<close>

text \<open>
  Claim C4, as amended. Let \<open>p\<close> be a payload that is not itself fenced (trimmed,
  it neither starts nor ends with three backquotes; no JSON text does). Wrap it in
  fence lines: whitespace, a line that is three backquotes and a tag without a line
  feed (the tag may be empty), a line feed, \<open>p\<close>, a line feed, a line of three
  backquotes, whitespace. Then the fenced reply and the reply \<open>p\<close> are handed to
  the decoder as the same text, so \<open>parse_sloka_with_claude\<close> and the enrichment of
  the sloka give the same result for both, whatever the decoder. Nothing is said
  here of fences that are not lines of their own.
\<close>

theorem fenced_reply_same_records:
  assumes "list_all isspace ws1" "list_all isspace ws2" "10 \<notin> set tag"
    "\<not> startswith (strip p) fence" "\<not> endswith (strip p) fence"
    "client1 (parse_request sloka) = Inr message1"
    "first_text message1 = Inr (ws1 @ fence @ tag @ [10] @ p @ [10] @ fence @ ws2)"
    "client2 (parse_request sloka) = Inr message2"
    "first_text message2 = Inr p"
  shows "parse_sloka_with_claude sloka client1 loads = parse_sloka_with_claude sloka client2 loads \<and>
         enrich_sloka client1 loads sloka = enrich_sloka client2 loads sloka"
proof -
  have "strip_fences (ws1 @ fence @ tag @ [10] @ p @ [10] @ fence @ ws2) = strip_fences p"
    using strip_fences_fenced [OF assms(1-5)] strip_fences_plain [OF assms(4,5)] by simp
  then have "parse_try sloka client1 loads = parse_try sloka client2 loads"
    using assms(6-9) by (simp add: parse_try_def)
  then show ?thesis by (simp add: parse_sloka_with_claude_def enrich_sloka_def)
qed

text \<open>
  At the sample reply, fenced with the tag json (a space before, a line feed after)
  and fenced without a tag: both give the record of the bare reply, with \<open>verify\<close>
  false after \<open>head\<close>.
\<close>

theorem fenced_reply_same_records_witness:
  "enrich_sloka
     (\<lambda>r. Inr [TextBlock ([32] @ fence @ ascii ''json'' @ [10] @ sample_text @ [10] @ fence @ [10])])
     sample_loads [97] =
   enrich_sloka (\<lambda>r. Inr [TextBlock sample_text]) sample_loads [97] \<and>
   enrich_sloka (\<lambda>r. Inr [TextBlock ([32] @ fence @ [10] @ sample_text @ [10] @ fence)])
     sample_loads [97] =
   enrich_sloka (\<lambda>r. Inr [TextBlock sample_text]) sample_loads [97] \<and>
   enrich_sloka (\<lambda>r. Inr [TextBlock sample_text]) sample_loads [97] =
     Inr (JDict [(entries_key,
       JList [JDict [(head_key, JStr [120]), (verify_key, JBool False :: int json)]])])"
  using
    fenced_reply_same_records [of "[32]" "[10]" "ascii ''json''" sample_text
      "\<lambda>r. Inr [TextBlock ([32] @ fence @ ascii ''json'' @ [10] @ sample_text @ [10] @ fence @ [10])]"
      "[97]"
      "[TextBlock ([32] @ fence @ ascii ''json'' @ [10] @ sample_text @ [10] @ fence @ [10])]"
      "\<lambda>r. Inr [TextBlock sample_text]" "[TextBlock sample_text]"
      "sample_loads :: int decoder"]
    fenced_reply_same_records [of "[32]" "[]" "[]" sample_text
      "\<lambda>r. Inr [TextBlock ([32] @ fence @ [10] @ sample_text @ [10] @ fence)]"
      "[97]"
      "[TextBlock ([32] @ fence @ [10] @ sample_text @ [10] @ fence)]"
      "\<lambda>r. Inr [TextBlock sample_text]" "[TextBlock sample_text]"
      "sample_loads :: int decoder"]
  by (simp add: string_eval stage_eval sample_eval)

text \<open>
  The claim as stated covers every way of wrapping, with or without a tag. It fails
  for a fence without a tag that is not on a line of its own. The opening fence is
  removed only as the first line of a reply of more than two lines or together with
  the tag json, so for three backquotes, the sample reply, three backquotes on one
  line, and for the same with a line feed after the opening fence, the decoder is
  handed a text that still starts with the backquotes; it refuses it and the result
  has no entries, while the bare reply gives one record.
\<close>

theorem untagged_fence_not_removed:
  "enrich_sloka (\<lambda>r. Inr [TextBlock (fence @ sample_text @ fence)]) sample_loads [97] \<noteq>
     (enrich_sloka (\<lambda>r. Inr [TextBlock sample_text]) sample_loads [97] :: py_exn + int json) \<and>
   enrich_sloka (\<lambda>r. Inr [TextBlock (fence @ [10] @ sample_text @ fence)]) sample_loads [97] \<noteq>
     (enrich_sloka (\<lambda>r. Inr [TextBlock sample_text]) sample_loads [97] :: py_exn + int json) \<and>
   strip_fences (fence @ sample_text @ fence) = fence @ sample_text \<and>
   strip_fences (fence @ [10] @ sample_text @ fence) = fence @ [10] @ sample_text \<and>
   enrich_sloka (\<lambda>r. Inr [TextBlock (fence @ sample_text @ fence)]) sample_loads [97] =
     Inr (JDict [(entries_key, JList [] :: int json)]) \<and>
   enrich_sloka (\<lambda>r. Inr [TextBlock (fence @ [10] @ sample_text @ fence)]) sample_loads [97] =
     Inr (JDict [(entries_key, JList [] :: int json)]) \<and>
   enrich_sloka (\<lambda>r. Inr [TextBlock sample_text]) sample_loads [97] =
     Inr (JDict [(entries_key,
       JList [JDict [(head_key, JStr [120]), (verify_key, JBool False :: int json)]])])"
  by (simp add: string_eval stage_eval sample_eval)

subsection \<open>C5: the normalization is idempotent\<close>

text \<open>
  Claim C5. The normalization the correction loop applies to every corrected sloka
  (line feeds to spaces, runs of whitespace to one space, two single dandas to one
  double danda) is idempotent: for every string, normalizing the normalized string
  gives the normalized string again.
\<close>

theorem normalize_sloka_idempotent:
  "normalize_sloka (normalize_sloka s) = normalize_sloka s"
proof -
  define ts where "ts = py_split (py_replace s [10] [32])"
  define ts' where "ts' = map (replace_scan [2404, 2404] [2405]) ts"
  have good: "\<forall>t \<in> set ts. t \<noteq> [] \<and> (\<forall>c \<in> set t. \<not> isspace c)"
    unfolding ts_def py_split_def using split_ws_tokens [of "[]"] by (simp add: list_all_iff)
  have good': "\<forall>t \<in> set ts'. t \<noteq> [] \<and> (\<forall>c \<in> set t. \<not> isspace c)"
  proof
    fix t' assume "t' \<in> set ts'"
    then obtain t where t: "t \<in> set ts" "t' = replace_scan [2404, 2404] [2405] t"
      by (auto simp: ts'_def)
    with good have "t \<noteq> []" "\<forall>c \<in> set t. \<not> isspace c" by auto
    with t danda_scan_set [of t] show "t' \<noteq> [] \<and> (\<forall>c \<in> set t'. \<not> isspace c)"
      by (auto simp: danda_scan_nonempty not_isspace_dd)
  qed
  have once: "normalize_sloka s = join [32] ts'"
    by (simp add: normalize_sloka_def py_replace_def ts_def ts'_def danda_scan_join)
  have "py_replace (join [32] ts') [10] [32] = join [32] ts'"
    using good' by (simp add: py_replace_def newline_scan_absent join_no_newline)
  moreover have "py_split (join [32] ts') = ts'"
    using good' by (simp add: py_split_def split_ws_join)
  moreover have "map (replace_scan [2404, 2404] [2405]) ts' = ts'"
    by (simp add: ts'_def danda_scan_idem)
  ultimately have "normalize_sloka (join [32] ts') = join [32] ts'"
    by (simp add: normalize_sloka_def py_replace_def danda_scan_join)
  with once show ?thesis by simp
qed

text \<open>
  At a string with a line feed, a run of spaces and three single dandas.
\<close>

theorem normalize_sloka_idempotent_witness:
  "normalize_sloka [2344, 32, 32, 10, 2346, 2404, 2404, 2404] = [2344, 32, 2346, 2405, 2404] \<and>
   normalize_sloka (normalize_sloka [2344, 32, 32, 10, 2346, 2404, 2404, 2404]) =
     [2344, 32, 2346, 2405, 2404]"
  using normalize_sloka_idempotent [of "[2344, 32, 32, 10, 2346, 2404, 2404, 2404]"]
  by (simp add: string_eval)

subsection \<open>C6: the order of the fields of a rebuilt entry\<close>

text \<open>
  Claim C6. Every decoded entry with the key \<open>head\<close> is rebuilt as \<open>head\<close>, then
  \<open>verify\<close> with the value false, then the remaining fields in their order; an entry
  without \<open>head\<close> is left as it is.

  The code does not do this for an entry that brings a \<open>verify\<close> of its own. Its
  comment says \<^verbatim>\<open>Add verify: false right after head\<close> and the new entry starts with
  \<open>head\<close> and \<open>verify\<close> false, but the copy of the fields leaves out \<open>head\<close> only,
  so the entry's own \<open>verify\<close> overwrites the false. At the entry with \<open>head\<close>,
  \<open>gender\<close> and \<open>verify\<close> true the rebuilt entry is \<open>head\<close>, \<open>verify\<close> true,
  \<open>gender\<close>: neither \<open>head\<close>, \<open>verify\<close> false, \<open>gender\<close> nor that followed by the
  entry's own \<open>verify\<close>.
\<close>

theorem verify_entry_not_always_false:
  "verify_entry (JDict [(head_key, JStr [2360]), (ascii ''gender'', JStr (ascii ''m'')),
       (verify_key, JBool True)]) =
     Inr (JDict [(head_key, JStr [2360]), (verify_key, JBool True),
                 (ascii ''gender'', JStr (ascii ''m'') :: int json)]) \<and>
   verify_entry (JDict [(head_key, JStr [2360]), (ascii ''gender'', JStr (ascii ''m'')),
       (verify_key, JBool True)]) \<noteq>
     Inr (JDict [(head_key, JStr [2360]), (verify_key, JBool False),
                 (ascii ''gender'', JStr (ascii ''m'') :: int json)]) \<and>
   verify_entry (JDict [(head_key, JStr [2360]), (ascii ''gender'', JStr (ascii ''m'')),
       (verify_key, JBool True)]) \<noteq>
     Inr (JDict [(head_key, JStr [2360]), (verify_key, JBool False),
                 (ascii ''gender'', JStr (ascii ''m'') :: int json), (verify_key, JBool True)])"
  by (simp add: verify_entry_def head_key_def verify_key_def ascii_def)

text \<open>
  What the code does as claimed: an object without the key \<open>head\<close> is left as
  it is, with no \<open>verify\<close> added, and an object with the key \<open>head\<close> and without a
  \<open>verify\<close> of its own is rebuilt as \<open>head\<close>, then \<open>verify\<close> false, then the other
  fields in their order.
\<close>

theorem verify_entry_field_order:
  "(head_key \<notin> set (map fst d) \<longrightarrow> verify_entry (JDict d) = Inr (JDict d)) \<and>
   (distinct (map fst d) \<and> map_of d head_key = Some h \<and> verify_key \<notin> set (map fst d) \<longrightarrow>
      verify_entry (JDict d) =
        Inr (JDict ((head_key, h) # (verify_key, JBool False) #
                    filter (\<lambda>kv. fst kv \<noteq> head_key) d)))"
  by (simp add: verify_entry_without_head verify_entry_with_head rebuild_without_verify)

text \<open>
  At an object with \<open>gender\<close> only, and at an object with \<open>gender\<close>, then \<open>head\<close>.
\<close>

theorem verify_entry_field_order_witness:
  "verify_entry (JDict [(ascii ''gender'', JStr (ascii ''m''))]) =
     Inr (JDict [(ascii ''gender'', JStr (ascii ''m'') :: int json)]) \<and>
   verify_entry (JDict [(ascii ''gender'', JStr (ascii ''m'')), (head_key, JStr [2360])]) =
     Inr (JDict [(head_key, JStr [2360]), (verify_key, JBool False),
                 (ascii ''gender'', JStr (ascii ''m'') :: int json)])"
  using
    verify_entry_field_order [of "[(ascii ''gender'', JStr (ascii ''m''))]" undefined]
    verify_entry_field_order [of "[(ascii ''gender'', JStr (ascii ''m'')), (head_key, JStr [2360])]"
      "JStr [2360]"]
  by (simp add: head_key_def verify_key_def ascii_def)

subsection \<open>C7: a decoded object without the key entries\<close>

text \<open>
  Claim C7. When the reply decodes to an object without the key \<open>entries\<close>, the
  entries the loop in \<open>main\<close> iterates over are the empty list, and the value stored
  for the sloka is the decoded object itself, which holds no entries.
\<close>

theorem reply_without_entries:
  assumes "client (parse_request sloka) = Inr message" "first_text message = Inr t"
    "loads (strip_fences t) = Inr (JDict d)" "entries_key \<notin> set (map fst d)"
  shows "py_get (JDict d) entries_key (JList []) = Inr (JList []) \<and>
         enrich_sloka client loads sloka = Inr (JDict d)"
proof -
  from assms(4) have "map_of d entries_key = None" by (simp add: map_of_eq_None_iff)
  moreover have "parse_sloka_with_claude sloka client loads = Inr (JDict d)"
    using assms(1-3) by (simp add: parse_sloka_with_claude_def parse_try_def)
  ultimately show ?thesis
    using assms(4) by (simp add: enrich_sloka_def add_verify_missing_key)
qed

text \<open>
  At the reply \<^verbatim>\<open>{"n":1}\<close> and a decoder that gives the object it denotes.
\<close>

theorem reply_without_entries_witness:
  "enrich_sloka (\<lambda>r. Inr [TextBlock [123, 34, 110, 34, 58, 49, 125]])
     (\<lambda>s. Inr (JDict [(ascii ''n'', JNum 1)])) [97] =
   Inr (JDict [(ascii ''n'', JNum (1 :: int))])"
  using reply_without_entries [of "\<lambda>r. Inr [TextBlock [123, 34, 110, 34, 58, 49, 125]]" "[97]"
      "[TextBlock [123, 34, 110, 34, 58, 49, 125]]" "[123, 34, 110, 34, 58, 49, 125]"
      "\<lambda>s. Inr (JDict [(ascii ''n'', JNum 1)])" "[(ascii ''n'', JNum 1)]"]
  by (simp add: entries_key_def ascii_def)

subsection \<open>C8: the order of the output\<close>

text \<open>
  Claim C8. Let \<open>cs\<close> be the corrected texts of the units, in the order of the
  units, and let them be pairwise distinct. Without enrichment the run ends with the
  dictionary whose keys are \<open>cs\<close> in that order, and writes the document whose
  top-level keys are \<open>cs\<close> in that order. With enrichment, a run that ends without
  an exception ends with a dictionary whose keys are \<open>cs\<close> in that order, and the
  document it writes has the top-level keys \<open>cs\<close> in that order. The order of the
  document is that of the dictionary because \<^verbatim>\<open>yaml.dump\<close> is called with
  \<^verbatim>\<open>sort_keys=False\<close>.
\<close>

theorem output_order_matches_input:
  fixes loads :: "'n decoder"
  assumes "map (correction_stage client) (map fst yaml_data) = map Inr cs" "distinct cs"
  shows "main yaml_data client loads True = Inr (map (\<lambda>c. (c, JDict [])) cs) \<and>
         (\<forall>final. main yaml_data client loads False = Inr final \<longrightarrow> map fst final = cs) \<and>
         main_written yaml_data client loads True =
           Inr (MappingNode (map (\<lambda>c. (ScalarNode (SStr c), MappingNode [])) cs)) \<and>
         (\<forall>doc. main_written yaml_data client loads False = Inr doc \<longrightarrow>
            (\<exists>items. doc = MappingNode items \<and> map fst items = map (\<lambda>c. ScalarNode (SStr c)) cs))"
proof -
  have d: "correct_loop client (map fst yaml_data) [] =
      Inr (map (\<lambda>c. (c, JDict [] :: 'n json)) cs)"
    using correct_loop_distinct [OF assms, of "[]"] by simp
  then have skip: "main yaml_data client loads True = Inr (map (\<lambda>c. (c, JDict [])) cs)"
    by (simp add: main_def)
  have keys: "map fst (map (\<lambda>c. (c, JDict [] :: 'n json)) cs) = cs" by (simp add: comp_def)
  have full: "map fst final = cs" if "main yaml_data client loads False = Inr final" for final
  proof -
    from d that
    have "enrich_loop client loads (map (\<lambda>c. (c, JDict [] :: 'n json)) cs) [] = Inr final"
      by (simp add: main_def)
    from enrich_loop_keys [OF this] assms(2) keys show ?thesis by simp
  qed
  have written: "main_written yaml_data client loads True =
      Inr (MappingNode (map (\<lambda>c. (ScalarNode (SStr c), MappingNode [])) cs))"
    by (simp add: main_written_def skip yaml_dump_in_order comp_def)
  have doc: "\<exists>items. doc = MappingNode items \<and> map fst items = map (\<lambda>c. ScalarNode (SStr c)) cs"
    if "main_written yaml_data client loads False = Inr doc" for doc
  proof -
    from that obtain final where f: "main yaml_data client loads False = Inr final"
      "doc = yaml_dump final False"
      by (auto simp: main_written_def split: sum.splits)
    from full [OF f(1)] yaml_dump_keys [of final] f(2) show ?thesis by simp
  qed
  from skip full written doc show ?thesis by blast
qed

text \<open>
  At the units \<^verbatim>\<open>b\<close> and \<^verbatim>\<open>a\<close>, in this order, a service that always raises and a
  decoder that always raises: the document has \<^verbatim>\<open>b\<close> before \<^verbatim>\<open>a\<close>.
\<close>

theorem output_order_matches_input_witness:
  "main_written [([98], ()), ([97], ())] (\<lambda>r. Inl APIError) (\<lambda>s. Inl JSONDecodeError) True =
     Inr (MappingNode [(ScalarNode (SStr [98]), MappingNode []),
                       (ScalarNode (SStr [97]), MappingNode [] :: int node)]) \<and>
   main_written [([98], ()), ([97], ())] (\<lambda>r. Inl APIError) (\<lambda>s. Inl JSONDecodeError) False =
     Inr (MappingNode
       [(ScalarNode (SStr [98]), MappingNode [(ScalarNode (SStr entries_key), SequenceNode [])]),
        (ScalarNode (SStr [97]),
         MappingNode [(ScalarNode (SStr entries_key), SequenceNode [] :: int node)])]) \<and>
   main [([98], ()), ([97], ())] (\<lambda>r. Inl APIError) (\<lambda>s. Inl JSONDecodeError) False =
     Inr [([98], no_entries), ([97], no_entries :: int json)]"
  using output_order_matches_input [of "\<lambda>r. Inl APIError" "[([98], ()), ([97], ())]"
      "[[98], [97]]" "\<lambda>s. Inl JSONDecodeError :: py_exn + int json"]
  by (simp add: string_eval stage_eval main_written_def yaml_dump_def)

subsection \<open>C9: units with the same corrected text\<close>

text \<open>
  Claim C9. When two units, at the positions \<open>i < j\<close>, have the same corrected
  text, the dictionary a run ends with holds exactly one entry under that text, and
  fewer entries than there are units.
\<close>

theorem colliding_units_collapse:
  assumes "map (correction_stage client) (map fst yaml_data) = map Inr cs"
    "i < j" "j < length cs" "cs ! i = cs ! j"
    "main yaml_data client loads skip_enrichment = Inr final"
  shows "length (filter (\<lambda>kv. fst kv = cs ! i) final) = 1 \<and> length final < length yaml_data"
proof -
  from main_keys [OF assms(1,5)] have k: "distinct (map fst final)" "set (map fst final) = set cs"
    by auto
  from assms(2,3) have "cs ! i \<in> set cs" by simp
  with k have "{x. x = cs ! i} \<inter> set (map fst final) = {cs ! i}" by auto
  with k(1) have "length (filter (\<lambda>k. k = cs ! i) (map fst final)) = 1"
    by (simp only: distinct_length_filter) simp
  moreover have "filter (\<lambda>k. k = cs ! i) (map fst final) =
      map fst (filter (\<lambda>kv. fst kv = cs ! i) final)"
    by (simp only: filter_map comp_def)
  ultimately have one: "length (filter (\<lambda>kv. fst kv = cs ! i) final) = 1"
    by (simp only: length_map)
  have "\<not> distinct cs"
  proof
    assume "distinct cs"
    with assms(2-4) have "i = j" by (simp add: nth_eq_iff_index_eq)
    with assms(2) show False by simp
  qed
  then have "card (set cs) < length cs"
    using card_length [of cs] card_distinct [of cs] by linarith
  moreover have "length final = card (set cs)"
    using k distinct_card [of "map fst final"] by simp
  moreover have "length cs = length yaml_data"
    using arg_cong [OF assms(1), of length] by simp
  ultimately show ?thesis using one by simp
qed

text \<open>
  At the units \<^verbatim>\<open>a\<close> and \<^verbatim>\<open>a\<close> followed by a space, and a service that always
  raises: both are corrected to \<^verbatim>\<open>a\<close>.
\<close>

theorem colliding_units_collapse_witness:
  "main [([97], ()), ([97, 32], ())] (\<lambda>r. Inl APIError) (\<lambda>s. Inl JSONDecodeError) True =
     Inr [([97], JDict [] :: int json)] \<and>
   length (filter (\<lambda>kv. fst kv = [97]) [([97 :: nat], JDict [] :: int json)]) = 1 \<and>
   length [([97 :: nat], JDict [] :: int json)] < length [([97 :: nat], ()), ([97, 32], ())]"
  using colliding_units_collapse [of "\<lambda>r. Inl APIError" "[([97], ()), ([97, 32], ())]"
      "[[97], [97]]" 0 1 "\<lambda>s. Inl JSONDecodeError :: py_exn + int json" True
      "[([97], JDict [])]"]
  by (simp add: string_eval stage_eval)

subsection \<open>C10: an entry that brings its own verify\<close>

text \<open>
  Claim C10. An entry with the keys \<open>head\<close> and \<open>verify\<close> is rebuilt as \<open>head\<close>,
  then \<open>verify\<close> with the value the entry had for it (the copy of the entry's fields
  overwrites the false put there first), then the other fields in their order.
\<close>

theorem verify_entry_keeps_given_verify:
  assumes "distinct (map fst d)" "map_of d head_key = Some h" "map_of d verify_key = Some v"
  shows "verify_entry (JDict d) =
     Inr (JDict ((head_key, h) # (verify_key, v) #
                 filter (\<lambda>kv. fst kv \<noteq> head_key \<and> fst kv \<noteq> verify_key) d))"
  using assms by (simp add: verify_entry_with_head rebuild_with_verify)

text \<open>
  At an entry with \<open>head\<close>, \<open>gender\<close> and \<open>verify\<close> true.
\<close>

theorem verify_entry_keeps_given_verify_witness:
  "verify_entry (JDict [(head_key, JStr [2360]), (ascii ''gender'', JStr (ascii ''m'')),
       (verify_key, JBool True)]) =
     Inr (JDict [(head_key, JStr [2360]), (verify_key, JBool True),
                 (ascii ''gender'', JStr (ascii ''m'') :: int json)])"
  using verify_entry_keeps_given_verify [of "[(head_key, JStr [2360]),
      (ascii ''gender'', JStr (ascii ''m'')), (verify_key, JBool True)]" "JStr [2360]" "JBool True"]
  by (simp add: head_key_def verify_key_def ascii_def)

section \<open>Where a run completes\<close>

text \<open>
  When every reply to a parsing request that decodes, decodes to the shape the
  prompt asks for, a run ends without an exception, in both modes: no failure of
  the service and no reply that the decoder refuses ends it. The run that C1 shows
  ending early is one where a reply decodes to another shape.
\<close>

theorem expected_shape_run_completes:
  fixes loads :: "'n decoder"
  assumes "\<And>sloka message t v. client (parse_request sloka) = Inr message \<Longrightarrow>
     first_text message = Inr t \<Longrightarrow> loads (strip_fences t) = Inr v \<Longrightarrow> expected_shape v"
  shows "\<exists>final. main yaml_data client loads skip_enrichment = Inr final"
proof -
  have "\<exists>v. enrich_sloka client loads sloka = Inr v" for sloka
  proof -
    have "expected_shape (no_entries :: 'n json)" by (simp add: no_entries_def)
    moreover obtain parsed where p: "parse_sloka_with_claude sloka client loads = Inr parsed"
      using parse_sloka_total by blast
    moreover have "parsed = no_entries \<or>
        (\<exists>message t. client (parse_request sloka) = Inr message \<and>
           first_text message = Inr t \<and> loads (strip_fences t) = Inr parsed)"
      using p by (auto simp: parse_sloka_with_claude_def parse_try_def
          split: sum.splits py_exn.splits)
    ultimately have "expected_shape parsed" using assms by auto
    with p show ?thesis using add_verify_expected_shape by (simp add: enrich_sloka_def)
  qed
  then have "\<exists>final. enrich_loop client loads items [] = Inr final" for items
    by (rule enrich_loop_total)
  moreover obtain d :: "(ustr \<times> 'n json) list"
    where "correct_loop client (map fst yaml_data) [] = Inr d"
    using correct_loop_total by blast
  ultimately show ?thesis by (simp add: main_def)
qed

text \<open>
  At one unit, a service that raises on the correction and answers the parsing with
  a text the decoder reads as one entry with \<open>head\<close> and \<open>gender\<close>: the stored entry
  has \<open>verify\<close> false after \<open>head\<close>.
\<close>

theorem expected_shape_run_completes_witness:
  "main [([97], ())]
     (\<lambda>r. if max_tokens r = 1024 then Inl APIError else Inr [TextBlock [123, 125]])
     (\<lambda>s. Inr (JDict [(entries_key,
        JList [JDict [(head_key, JStr [2360]), (ascii ''gender'', JStr (ascii ''m''))]])]))
     False =
   Inr [([97], JDict [(entries_key,
        JList [JDict [(head_key, JStr [2360]), (verify_key, JBool False),
                      (ascii ''gender'', JStr (ascii ''m'') :: int json)]])])]"
  using expected_shape_run_completes [of
      "\<lambda>r. if max_tokens r = 1024 then Inl APIError else Inr [TextBlock [123, 125]]"
      "\<lambda>s. Inr (JDict [(entries_key,
        JList [JDict [(head_key, JStr [2360]), (ascii ''gender'', JStr (ascii ''m'') :: int json)]])])"
      "[([97], ())]" False]
  by (simp add: string_eval stage_eval)

end
